theory Spec2Isabelle
  imports Main "HOL-Library.Word" "HOL-Library.Multiset"
begin

section \<open>Data model\<close>

text \<open>
  The program of \<^verbatim>\<open>ziper_imager.go\<close> walks a directory tree, keeps the files whose
  leading bytes are an image signature, writes them into one zip archive and hands the
  archive to a chat endpoint. Everything the program obtains from outside (system calls,
  the HTTP exchange) is a field of the world it runs in; every error is a value.
\<close>

type_synonym byte = "8 word"

type_synonym ioerr = string

text \<open>The flag variables of \<^verbatim>\<open>setFlags\<close>, after \<^verbatim>\<open>flags.Parse\<close>.\<close>

record config =
  location :: string
  outputZip :: string
  telegramToken :: string
  telegramChatID :: string
  message :: string
  debug :: bool
  silence :: bool

text \<open>What \<^verbatim>\<open>os.FileInfo\<close> carries, as far as the program reads it.\<close>

record file_info =
  fi_name :: string
  fi_size :: int
  fi_modtime :: int

text \<open>
  A file that is not a directory, by the outcome of each call the program makes on it:
  \<^verbatim>\<open>os.Open\<close>, the first \<^verbatim>\<open>Read\<close> on the handle, \<^verbatim>\<open>Stat\<close> on the handle, and
  \<^verbatim>\<open>io.Copy\<close> from the handle (which fails with an error after some number of bytes,
  or copies everything).
\<close>

record srcfile =
  f_open :: "ioerr option"
  f_read :: "ioerr option"
  f_data :: "byte list"
  f_stat :: "ioerr + file_info"
  f_copy :: "(nat \<times> ioerr) option"

text \<open>
  A directory entry as the walker meets it: \<^verbatim>\<open>entry.Info()\<close> fails, or it is a file, or
  it is a directory, whose \<^verbatim>\<open>os.ReadDir\<close> fails or lists named entries in the order
  returned.
\<close>

datatype node =
    NoInfo ioerr
  | File srcfile
  | Dir dir
and dir =
    Unlistable ioerr
  | Listing "(string \<times> node) list"

text \<open>
  The two library functions the walker calls that are not part of the program:
  \<^verbatim>\<open>filetype.IsImage\<close> of github.com/h2non/filetype and \<^verbatim>\<open>filepath.Join\<close>. They are
  parameters of the model.
\<close>

record deps =
  IsImage :: "byte list \<Rightarrow> bool"
  Join :: "string \<Rightarrow> string \<Rightarrow> string"

text \<open>
  What the program does, in program order: a call of \<^verbatim>\<open>os.ReadDir\<close>, a line written
  to \<^verbatim>\<open>outStream\<close>, to \<^verbatim>\<open>errStream\<close> or to \<^verbatim>\<open>os.Stdout\<close>, the statement
  \<^verbatim>\<open>imageFiles = append(imageFiles, p)\<close> on the package-level slice, the \<^verbatim>\<open>go func\<close>
  statement, which starts a goroutine running the given operations, \<^verbatim>\<open>os.Create\<close> of
  the archive, \<^verbatim>\<open>os.Open\<close> of a file to archive, and the calls of
  \<^verbatim>\<open>sendMessageToTelegram\<close> and \<^verbatim>\<open>sendFileToTelegram\<close> with their arguments.
\<close>

datatype op =
    ReadDir string
  | Stdout string
  | Stderr string
  | OsStdout string
  | Append string
  | Go "op list"
  | CreateFile string
  | OpenFile string
  | SendMessage string string string
  | SendFile string string string string

definition nl :: string where
  "nl = [CHR 0x0A]"

section \<open>The classifier\<close>

text \<open>
  \<^verbatim>\<open>buf := make([]byte, 261)\<close> followed by a successful \<^verbatim>\<open>file.Read(buf)\<close>: the leading
  bytes of the file, and zeros where the file has no more bytes.
\<close>

definition read_buf :: "byte list \<Rightarrow> byte list" where
  "read_buf bs = take 261 bs @ replicate (261 - length bs) 0"

text \<open>
  The error of \<^verbatim>\<open>file.Read(buf)\<close>, if any, and the buffer afterwards. A nil handle (the
  open failed) gives \<^verbatim>\<open>os.ErrInvalid\<close>, a file at its end gives \<^verbatim>\<open>io.EOF\<close>; in both
  cases and on a read error no byte is stored.
\<close>

definition file_Read :: "srcfile \<Rightarrow> ioerr option \<times> byte list" where
  "file_Read f =
     (if f_open f \<noteq> None then (Some ''invalid argument'', replicate 261 0)
      else case f_read f of
        Some e \<Rightarrow> (Some e, replicate 261 0)
      | None \<Rightarrow>
          if f_data f = [] then (Some ''EOF'', replicate 261 0)
          else (None, read_buf (f_data f)))"

definition isImageFile :: "deps \<Rightarrow> config \<Rightarrow> string \<Rightarrow> srcfile \<Rightarrow> bool \<times> op list" where
  "isImageFile D c path f =
     (if f_open f \<noteq> None \<and> \<not> silence c
      then (False, [Stderr (''file open failed '' @ path @ '', '' @ the (f_open f) @ nl)])
      else
        let (err, buf) = file_Read f in
        if err \<noteq> None \<and> \<not> silence c
        then (False, [Stderr (''file read failed '' @ path @ '', '' @ the err @ nl)])
        else
          let isImage = IsImage D buf in
          (isImage,
           if debug c
           then (if isImage then [OsStdout (''Image file: '' @ path @ nl)]
                 else [Stderr (''Not Image file: '' @ [CHR 0x27] @ path @ [CHR 0x27] @ nl)])
           else []))"

section \<open>The walker\<close>

fun search :: "deps \<Rightarrow> config \<Rightarrow> string \<Rightarrow> dir \<Rightarrow> op list"
and search_entries :: "deps \<Rightarrow> config \<Rightarrow> string \<Rightarrow> (string \<times> node) list \<Rightarrow> op list"
and search_entry :: "deps \<Rightarrow> config \<Rightarrow> string \<Rightarrow> string \<Rightarrow> node \<Rightarrow> op list"
where
  "search D c loc (Unlistable e) = [ReadDir loc, Stderr (e @ nl)]"
| "search D c loc (Listing es) = ReadDir loc # search_entries D c loc es"
| "search_entries D c loc [] = []"
| "search_entries D c loc ((name, n) # es) =
     search_entry D c loc name n @ search_entries D c loc es"
| "search_entry D c loc name (NoInfo e) = [Stderr (e @ nl)]"
| "search_entry D c loc name (Dir d) = [Go (search D c (Join D loc name) d)]"
| "search_entry D c loc name (File f) =
     (let fullPath = Join D loc name;
          (isImage, log) = isImageFile D c fullPath f
      in log @ (if isImage then [Append fullPath, Stdout (fullPath @ nl)] else []))"

section \<open>Goroutines and the shared slice\<close>

text \<open>
  \<^verbatim>\<open>search\<close> starts one goroutine per subdirectory and every goroutine appends to the
  package-level slice \<^verbatim>\<open>imageFiles\<close>; the program holds no lock around the append. The
  statement \<^verbatim>\<open>imageFiles = append(imageFiles, p)\<close> reads the slice and then writes the
  extended slice back, and another goroutine may run between the two. A goroutine is
  the value it has read for an append it has not finished, if any, and the operations
  it has left.
\<close>

type_synonym goroutine = "string list option \<times> op list"

record walk_state =
  imageFiles :: "string list"
  streams :: "op list"
  pool :: "goroutine list"

text \<open>
  One step of one goroutine, given the current slice: the slice afterwards, what it
  wrote to the streams, and the goroutines that take its place (none when it has
  returned, itself and the new one after a \<^verbatim>\<open>go\<close> statement).
\<close>

fun step1 :: "string list \<Rightarrow> goroutine \<Rightarrow> string list \<times> op list \<times> goroutine list" where
  "step1 sh (r, []) = (sh, [], [])"
| "step1 sh (None, Append p # ops) = (sh, [], [(Some sh, Append p # ops)])"
| "step1 sh (Some l, Append p # ops) = (l @ [p], [], [(None, ops)])"
| "step1 sh (r, Go child # ops) = (sh, [], [(r, ops), (None, child)])"
| "step1 sh (r, x # ops) = (sh, [x], [(r, ops)])"

text \<open>The scheduler picks goroutine \<open>n mod length (pool s)\<close> for the next step.\<close>

definition step :: "nat \<Rightarrow> walk_state \<Rightarrow> walk_state" where
  "step n s =
     (if pool s = [] then s
      else
        let i = n mod length (pool s);
            (sh, log, gs) = step1 (imageFiles s) (pool s ! i)
        in s\<lparr>imageFiles := sh, streams := streams s @ log,
              pool := take i (pool s) @ gs @ drop (Suc i) (pool s)\<rparr>)"

fun exec :: "nat list \<Rightarrow> walk_state \<Rightarrow> walk_state" where
  "exec [] s = s"
| "exec (n # ns) s = exec ns (step n s)"

text \<open>
  A goroutine run to its end without interruption, each goroutine it starts run to its
  end at the \<^verbatim>\<open>go\<close> statement.
\<close>

fun drain :: "op list \<Rightarrow> string list \<times> op list \<Rightarrow> string list \<times> op list" where
  "drain [] s = s"
| "drain (Append p # ops) (sh, log) = drain ops (sh @ [p], log)"
| "drain (Go child # ops) s = drain ops (drain child s)"
| "drain (x # ops) (sh, log) = drain ops (sh, log @ [x])"

fun finish1 :: "goroutine \<Rightarrow> string list \<times> op list \<Rightarrow> string list \<times> op list" where
  "finish1 (Some l, Append p # ops) (sh, log) = drain ops (l @ [p], log)"
| "finish1 (r, ops) s = drain ops s"

text \<open>
  \<^verbatim>\<open>wg.Wait()\<close>: the top-level call of \<^verbatim>\<open>search\<close> returns when every goroutine has
  returned. A schedule is the list of the scheduler's choices; when the list is used up,
  the goroutines still running are run to their end one after the other.
\<close>

definition finish :: "walk_state \<Rightarrow> string list \<times> op list" where
  "finish s = fold finish1 (pool s) (imageFiles s, streams s)"

definition walk :: "deps \<Rightarrow> config \<Rightarrow> dir \<Rightarrow> nat list \<Rightarrow> string list \<times> op list" where
  "walk D c root sched =
     finish (exec sched
       \<lparr>imageFiles = [], streams = [], pool = [(None, search D c (location c) root)]\<rparr>)"

section \<open>The library functions, for concrete runs\<close>

text \<open>
  The image matchers of github.com/h2non/filetype (\<^verbatim>\<open>matchers/image.go\<close> and
  \<^verbatim>\<open>matchers/isobmff\<close>), which \<^verbatim>\<open>filetype.IsImage\<close> tries one after the other. The
  package is a dependency of the program, not part of it.
\<close>

definition Jpeg :: "byte list \<Rightarrow> bool" where
  "Jpeg buf = (length buf > 2 \<and> buf ! 0 = 0xFF \<and> buf ! 1 = 0xD8 \<and> buf ! 2 = 0xFF)"

definition Jpeg2000 :: "byte list \<Rightarrow> bool" where
  "Jpeg2000 buf = (length buf > 12 \<and>
     take 13 buf = [0x0, 0x0, 0x0, 0xC, 0x6A, 0x50, 0x20, 0x20, 0xD, 0xA, 0x87, 0xA, 0x0])"

definition Png :: "byte list \<Rightarrow> bool" where
  "Png buf = (length buf > 3 \<and> buf ! 0 = 0x89 \<and> buf ! 1 = 0x50 \<and> buf ! 2 = 0x4E \<and> buf ! 3 = 0x47)"

definition Gif :: "byte list \<Rightarrow> bool" where
  "Gif buf = (length buf > 2 \<and> buf ! 0 = 0x47 \<and> buf ! 1 = 0x49 \<and> buf ! 2 = 0x46)"

definition Webp :: "byte list \<Rightarrow> bool" where
  "Webp buf = (length buf > 11 \<and> buf ! 8 = 0x57 \<and> buf ! 9 = 0x45 \<and> buf ! 10 = 0x42 \<and> buf ! 11 = 0x50)"

definition tiff_order :: "byte list \<Rightarrow> bool" where
  "tiff_order buf =
     ((buf ! 0 = 0x49 \<and> buf ! 1 = 0x49 \<and> buf ! 2 = 0x2A \<and> buf ! 3 = 0x0) \<or>
      (buf ! 0 = 0x4D \<and> buf ! 1 = 0x4D \<and> buf ! 2 = 0x0 \<and> buf ! 3 = 0x2A))"

definition CR2 :: "byte list \<Rightarrow> bool" where
  "CR2 buf = (length buf > 10 \<and> tiff_order buf \<and>
     buf ! 8 = 0x43 \<and> buf ! 9 = 0x52 \<and> buf ! 10 = 0x02)"

definition Tiff :: "byte list \<Rightarrow> bool" where
  "Tiff buf = (length buf > 10 \<and> tiff_order buf \<and> \<not> CR2 buf)"

definition Bmp :: "byte list \<Rightarrow> bool" where
  "Bmp buf = (length buf > 1 \<and> buf ! 0 = 0x42 \<and> buf ! 1 = 0x4D)"

definition Jxr :: "byte list \<Rightarrow> bool" where
  "Jxr buf = (length buf > 2 \<and> buf ! 0 = 0x49 \<and> buf ! 1 = 0x49 \<and> buf ! 2 = 0xBC)"

definition Psd :: "byte list \<Rightarrow> bool" where
  "Psd buf = (length buf > 3 \<and> buf ! 0 = 0x38 \<and> buf ! 1 = 0x42 \<and> buf ! 2 = 0x50 \<and> buf ! 3 = 0x53)"

definition Ico :: "byte list \<Rightarrow> bool" where
  "Ico buf = (length buf > 3 \<and> buf ! 0 = 0x00 \<and> buf ! 1 = 0x00 \<and> buf ! 2 = 0x01 \<and> buf ! 3 = 0x00)"

definition Dwg :: "byte list \<Rightarrow> bool" where
  "Dwg buf = (length buf > 3 \<and> buf ! 0 = 0x41 \<and> buf ! 1 = 0x43 \<and> buf ! 2 = 0x31 \<and> buf ! 3 = 0x30)"

definition slice :: "byte list \<Rightarrow> nat \<Rightarrow> nat \<Rightarrow> byte list" where
  "slice buf i j = take (j - i) (drop i buf)"

definition ftypLength :: "byte list \<Rightarrow> nat" where
  "ftypLength buf =
     unat (buf ! 0) * 16777216 + unat (buf ! 1) * 65536 + unat (buf ! 2) * 256 + unat (buf ! 3)"

definition ascii :: "string \<Rightarrow> byte list" where
  "ascii s = map (\<lambda>ch. of_nat (of_char ch)) s"

definition IsISOBMFF :: "byte list \<Rightarrow> bool" where
  "IsISOBMFF buf =
     (if length buf < 16 \<or> slice buf 4 8 \<noteq> ascii ''ftyp'' then False
      else if length buf < ftypLength buf then False
      else True)"

definition majorBrand :: "byte list \<Rightarrow> byte list" where
  "majorBrand buf = (if length buf < 17 then [] else slice buf 8 12)"

definition compatibleBrands :: "byte list \<Rightarrow> byte list list" where
  "compatibleBrands buf =
     (if length buf < 17 then [[]]
      else map (\<lambda>k. slice buf (16 + 4 * k) (20 + 4 * k))
             (filter (\<lambda>k. 20 + 4 * k \<le> length buf) [0 ..< (ftypLength buf - 16 + 3) div 4]))"

definition brand_match :: "string \<Rightarrow> byte list \<Rightarrow> bool" where
  "brand_match b buf =
     (if \<not> IsISOBMFF buf then False
      else if majorBrand buf = ascii b then True
      else if majorBrand buf = ascii ''mif1'' \<or> majorBrand buf = ascii ''msf1''
           then ascii b \<in> set (compatibleBrands buf)
      else False)"

definition Heif :: "byte list \<Rightarrow> bool" where
  "Heif buf = brand_match ''heic'' buf"

definition Avif :: "byte list \<Rightarrow> bool" where
  "Avif buf = brand_match ''avif'' buf"

definition filetype_IsImage :: "byte list \<Rightarrow> bool" where
  "filetype_IsImage buf =
     (Jpeg buf \<or> Jpeg2000 buf \<or> Png buf \<or> Gif buf \<or> Webp buf \<or> CR2 buf \<or> Tiff buf \<or>
      Bmp buf \<or> Jxr buf \<or> Psd buf \<or> Ico buf \<or> Heif buf \<or> Dwg buf \<or> Avif buf)"

text \<open>
  \<^verbatim>\<open>filepath.Join\<close> of the standard library, on a directory path in clean form and a
  file name as a directory listing gives it.
\<close>

definition filepath_Join :: "string \<Rightarrow> string \<Rightarrow> string" where
  "filepath_Join d name =
     (if d = [] \<or> d = ''.'' then name
      else if d = ''/'' then d @ name
      else d @ ''/'' @ name)"

definition go_deps :: deps where
  "go_deps = \<lparr>IsImage = filetype_IsImage, Join = filepath_Join\<rparr>"

section \<open>The archive builder\<close>

datatype compression = Store | Deflate

record file_header =
  h_name :: string
  h_method :: compression
  h_modified :: int
  h_size :: int

text \<open>
  An entry of the archive: its header, and the bytes written to the entry's writer,
  which are the bytes that extracting the entry gives back.
\<close>

record zip_entry =
  header :: file_header
  payload :: "byte list"

text \<open>
  The world the program runs in: the outcome of \<^verbatim>\<open>os.Stat(location)\<close>, the tree under
  the location during the walk, the files by path name when the archive is built, the
  outcome of \<^verbatim>\<open>os.Create(outputZip)\<close> and of \<^verbatim>\<open>Stat\<close> on the file it leaves, of
  \<^verbatim>\<open>zip.FileInfoHeader\<close> and \<^verbatim>\<open>zipWriter.CreateHeader\<close>, of \<^verbatim>\<open>os.Stat(outputZip)\<close>
  after the build (an error or the size in bytes), and of the two exchanges with the
  chat endpoint once the chat identifier has been checked.
\<close>

record world =
  root_stat :: "ioerr option"
  root :: dir
  files :: "string \<Rightarrow> srcfile"
  create_zip :: "ioerr option"
  created_stat :: "ioerr + file_info"
  info_header :: "file_info \<Rightarrow> ioerr option"
  create_header :: "file_header \<Rightarrow> ioerr option"
  zip_stat :: "ioerr + int"
  post_message :: "ioerr option"
  post_document :: "ioerr option"

definition FileInfoHeader :: "file_info \<Rightarrow> file_header" where
  "FileInfoHeader fi =
     \<lparr>h_name = fi_name fi, h_method = Store, h_modified = fi_modtime fi, h_size = fi_size fi\<rparr>"

definition addToZip ::
  "world \<Rightarrow> (string \<Rightarrow> srcfile) \<Rightarrow> string \<Rightarrow> zip_entry list \<Rightarrow> ioerr option \<times> zip_entry list \<times> op list"
where
  "addToZip W fs imgPath zs =
     (let fileToZip = fs imgPath in
      case f_open fileToZip of
        Some e \<Rightarrow> (Some e, zs, [OpenFile imgPath])
      | None \<Rightarrow>
          (case f_stat fileToZip of
             Inl e \<Rightarrow> (Some e, zs, [OpenFile imgPath])
           | Inr info \<Rightarrow>
               (case info_header W info of
                  Some e \<Rightarrow> (Some e, zs, [OpenFile imgPath])
                | None \<Rightarrow>
                    let hdr = (FileInfoHeader info)\<lparr>h_name := imgPath, h_method := Deflate\<rparr> in
                    (case create_header W hdr of
                       Some e \<Rightarrow> (Some e, zs, [OpenFile imgPath])
                     | None \<Rightarrow>
                         (case f_copy fileToZip of
                            Some (k, e) \<Rightarrow>
                              (Some e,
                               zs @ [\<lparr>header = hdr, payload = take k (f_data fileToZip)\<rparr>],
                               [OpenFile imgPath])
                          | None \<Rightarrow>
                              (None,
                               zs @ [\<lparr>header = hdr, payload = f_data fileToZip\<rparr>],
                               [OpenFile imgPath]))))))"

text \<open>The loop of \<^verbatim>\<open>zipImages\<close>: the first error ends it.\<close>

fun zip_loop ::
  "world \<Rightarrow> (string \<Rightarrow> srcfile) \<Rightarrow> string list \<Rightarrow> zip_entry list \<Rightarrow> ioerr option \<times> zip_entry list \<times> op list"
where
  "zip_loop W fs [] zs = (None, zs, [])"
| "zip_loop W fs (img # imgs) zs =
     (case addToZip W fs img zs of
        (Some e, zs', log) \<Rightarrow> (Some e, zs', log)
      | (None, zs', log) \<Rightarrow>
          (case zip_loop W fs imgs zs' of (r, zs'', log') \<Rightarrow> (r, zs'', log @ log')))"

text \<open>
  \<^verbatim>\<open>os.Create\<close> creates the named file or truncates it. The archive writer buffers what
  it writes, so a file opened at the output path while the archive is built is the
  empty file that \<^verbatim>\<open>os.Create\<close> left.
\<close>

definition truncated :: "world \<Rightarrow> srcfile" where
  "truncated W =
     \<lparr>f_open = None, f_read = None, f_data = [], f_stat = created_stat W, f_copy = None\<rparr>"

definition zipImages :: "world \<Rightarrow> string list \<Rightarrow> string \<Rightarrow> ioerr option \<times> zip_entry list \<times> op list" where
  "zipImages W imgs out =
     (case create_zip W of
        Some e \<Rightarrow> (Some e, [], [CreateFile out])
      | None \<Rightarrow>
          (case zip_loop W ((files W)(out := truncated W)) imgs [] of
             (r, zs, log) \<Rightarrow> (r, zs, CreateFile out # log)))"

section \<open>Delivery and the main flow\<close>

definition digit :: "nat \<Rightarrow> char" where
  "digit d = ''0123456789'' ! d"

fun dec :: "nat \<Rightarrow> string" where
  "dec n = (if n < 10 then [digit n] else dec (n div 10) @ [digit (n mod 10)])"

definition fmt_d :: "int \<Rightarrow> string" where
  "fmt_d i = (if i < 0 then ''-'' @ dec (nat (- i)) else dec (nat i))"

definition sendMessageToTelegram :: "world \<Rightarrow> string \<Rightarrow> string \<Rightarrow> string \<Rightarrow> ioerr option" where
  "sendMessageToTelegram W msg token chatID =
     (if chatID = [] then Some ''chat_id is empty'' else post_message W)"

definition sendFileToTelegram :: "world \<Rightarrow> string \<Rightarrow> string \<Rightarrow> string \<Rightarrow> string \<Rightarrow> ioerr option" where
  "sendFileToTelegram W filePath msg token chatID =
     (if chatID = [] then Some ''chat_id is empty'' else post_document W)"

text \<open>
  \<^verbatim>\<open>run\<close>, given the parsed flags, the world and the schedule of the walk: the exit
  status and everything the program did, in order.
\<close>

definition run :: "deps \<Rightarrow> config \<Rightarrow> world \<Rightarrow> nat list \<Rightarrow> int \<times> op list" where
  "run D c W sched =
     (case root_stat W of
        Some e \<Rightarrow> (1, [Stdout (''Location is an invalid value. '' @ e @ nl)])
      | None \<Rightarrow>
     (case walk D c (root W) sched of (imgs, log) \<Rightarrow>
      if length imgs > 0 then
        (case zipImages W imgs (outputZip c) of
           (Some e, zs, zlog) \<Rightarrow>
             (1, log @ zlog @ [Stderr (''Error while zipping images: '' @ e @ nl)])
         | (None, zs, zlog) \<Rightarrow>
        (let log = log @ zlog @ [Stdout (''Zipped '' @ dec (length imgs) @ '' images into ''
                                         @ outputZip c @ nl)] in
         case zip_stat W of
           Inl e \<Rightarrow> (1, log @ [Stderr (''Error getting zip file stats: '' @ e @ nl)])
         | Inr sz \<Rightarrow>
         if sz > 20 * 1024 * 1024
         then (1, log @ [Stderr (''The zip file is too large to send via Telegram (''
                                 @ fmt_d sz @ '' bytes).'' @ nl)])
         else
        (let log = log @ [SendMessage (message c) (telegramToken c) (telegramChatID c)] in
         case sendMessageToTelegram W (message c) (telegramToken c) (telegramChatID c) of
           Some e \<Rightarrow> (1, log @ [Stderr (''Error sending test message to Telegram: '' @ e @ nl)])
         | None \<Rightarrow>
         if telegramToken c \<noteq> [] \<and> telegramChatID c \<noteq> [] \<and> message c \<noteq> []
         then
          (let log = log @ [SendFile (outputZip c) (message c) (telegramToken c)
                              (telegramChatID c)] in
           case sendFileToTelegram W (outputZip c) (message c) (telegramToken c)
                  (telegramChatID c) of
             Some e \<Rightarrow> (1, log @ [Stderr (''Error sending file to Telegram: '' @ e @ nl)])
           | None \<Rightarrow> (0, log @ [Stdout (''Sent '' @ outputZip c @ '' to Telegram chat ''
                                        @ telegramChatID c @ nl)]))
         else (0, log))))
      else (0, log @ [Stdout (''No image files found.'' @ nl)])))"

section \<open>Predicates used in the statements\<close>

text \<open>
  The operations a walk can perform: everything but the creation of the archive, the
  opening of a file to archive and the two calls to the chat endpoint.
\<close>

fun walker_op :: "op \<Rightarrow> bool" where
  "walker_op (ReadDir p) = True"
| "walker_op (Stdout m) = True"
| "walker_op (Stderr m) = True"
| "walker_op (OsStdout m) = True"
| "walker_op (Append p) = True"
| "walker_op (Go ops) = list_all walker_op ops"
| "walker_op (CreateFile p) = False"
| "walker_op (OpenFile p) = False"
| "walker_op (SendMessage m t i) = False"
| "walker_op (SendFile f m t i) = False"

definition walker_state :: "walk_state \<Rightarrow> bool" where
  "walker_state s \<longleftrightarrow>
     list_all walker_op (streams s) \<and> list_all (\<lambda>g. list_all walker_op (snd g)) (pool s)"

text \<open>
  What the specification asks of the walk, in its own words: the result holds the files
  of the tree whose content is an image. A file counts as an image when it can be opened
  and read, is not empty, and its leading bytes, as the classifier sees them, carry an
  image signature; the files of the tree are those reached through directories that
  can be listed, in the order of the listings.
\<close>

definition is_image :: "deps \<Rightarrow> srcfile \<Rightarrow> bool" where
  "is_image D f \<longleftrightarrow>
     f_open f = None \<and> f_read f = None \<and> f_data f \<noteq> [] \<and> IsImage D (read_buf (f_data f))"

fun image_paths :: "deps \<Rightarrow> string \<Rightarrow> dir \<Rightarrow> string list"
and image_paths_entries :: "deps \<Rightarrow> string \<Rightarrow> (string \<times> node) list \<Rightarrow> string list"
and image_paths_entry :: "deps \<Rightarrow> string \<Rightarrow> string \<Rightarrow> node \<Rightarrow> string list"
where
  "image_paths D loc (Unlistable e) = []"
| "image_paths D loc (Listing es) = image_paths_entries D loc es"
| "image_paths_entries D loc [] = []"
| "image_paths_entries D loc ((name, n) # es) =
     image_paths_entry D loc name n @ image_paths_entries D loc es"
| "image_paths_entry D loc name (NoInfo e) = []"
| "image_paths_entry D loc name (Dir d) = image_paths D (Join D loc name) d"
| "image_paths_entry D loc name (File f) = (if is_image D f then [Join D loc name] else [])"

text \<open>The paths a goroutine and the goroutines it starts append, in program order.\<close>

fun appended :: "op \<Rightarrow> string list" where
  "appended (Append p) = [p]"
| "appended (Go ops) = concat (map appended ops)"
| "appended x = []"

text \<open>
  A state of the walk in which the slice, every value read from it and every pending
  append hold paths of the set \<open>S\<close> only.
\<close>

definition sound_goroutine :: "string set \<Rightarrow> goroutine \<Rightarrow> bool" where
  "sound_goroutine S g \<longleftrightarrow>
     (\<forall>l. fst g = Some l \<longrightarrow> set l \<subseteq> S) \<and> set (concat (map appended (snd g))) \<subseteq> S"

definition sound_state :: "string set \<Rightarrow> walk_state \<Rightarrow> bool" where
  "sound_state S s \<longleftrightarrow> set (imageFiles s) \<subseteq> S \<and> list_all (sound_goroutine S) (pool s)"

text \<open>
  What a goroutine and the goroutines it starts write to the streams and which
  directories they read, in program order; and the same for a pool of goroutines.
\<close>

fun emitted :: "op \<Rightarrow> op list" where
  "emitted (Append p) = []"
| "emitted (Go ops) = concat (map emitted ops)"
| "emitted x = [x]"

definition pending :: "goroutine list \<Rightarrow> op list" where
  "pending gs = concat (map (\<lambda>g. concat (map emitted (snd g))) gs)"

text \<open>A call of \<^verbatim>\<open>sendMessageToTelegram\<close> or \<^verbatim>\<open>sendFileToTelegram\<close>.\<close>

fun delivery_op :: "op \<Rightarrow> bool" where
  "delivery_op (SendMessage m t i) = True"
| "delivery_op (SendFile f m t i) = True"
| "delivery_op x = False"

text \<open>
  The entry that \<^verbatim>\<open>addToZip\<close> writes for path \<open>p\<close>: named by the path, compressed with
  Deflate, time and size from the file's \<^verbatim>\<open>Stat\<close>, holding the file's bytes.
\<close>

definition entry_for :: "(string \<Rightarrow> srcfile) \<Rightarrow> string \<Rightarrow> zip_entry \<Rightarrow> bool" where
  "entry_for fs p z \<longleftrightarrow>
     (\<exists>info. f_stat (fs p) = Inr info \<and>
        z = \<lparr>header = \<lparr>h_name = p, h_method = Deflate, h_modified = fi_modtime info,
                         h_size = fi_size info\<rparr>,
             payload = f_data (fs p)\<rparr>)"

section \<open>A concrete tree and world\<close>

definition plain_file :: "string \<Rightarrow> byte list \<Rightarrow> srcfile" where
  "plain_file name bs =
     \<lparr>f_open = None, f_read = None, f_data = bs,
      f_stat = Inr \<lparr>fi_name = name, fi_size = int (length bs), fi_modtime = 1700000000\<rparr>,
      f_copy = None\<rparr>"

definition no_file :: srcfile where
  "no_file =
     \<lparr>f_open = Some ''no such file or directory'', f_read = None, f_data = [],
      f_stat = Inl ''no such file or directory'', f_copy = None\<rparr>"

definition jpeg_bytes :: "byte list" where
  "jpeg_bytes = [0xFF, 0xD8, 0xFF, 0xE0, 0x00, 0x10, 0x4A, 0x46, 0x49, 0x46]"

definition png_bytes :: "byte list" where
  "png_bytes = [0x89, 0x50, 0x4E, 0x47, 0x0D, 0x0A, 0x1A, 0x0A]"

definition cfg0 :: config where
  "cfg0 =
     \<lparr>location = ''.'', outputZip = ''images.zip'', telegramToken = [], telegramChatID = [],
      message = [], debug = False, silence = False\<rparr>"

text \<open>
  The directory \<^verbatim>\<open>.\<close> holds the directory \<^verbatim>\<open>sub\<close> (a text file and a PNG image) and a
  JPEG image.
\<close>

definition tree0 :: dir where
  "tree0 =
     Listing
       [(''sub'', Dir (Listing [(''b.txt'', File (plain_file ''b.txt'' (ascii ''plain text''))),
                                (''c.png'', File (plain_file ''c.png'' png_bytes))])),
        (''z.jpg'', File (plain_file ''z.jpg'' jpeg_bytes))]"

definition files0 :: "string \<Rightarrow> srcfile" where
  "files0 p =
     (if p = ''z.jpg'' then plain_file ''z.jpg'' jpeg_bytes
      else if p = ''sub/c.png'' then plain_file ''c.png'' png_bytes
      else if p = ''sub/b.txt'' then plain_file ''b.txt'' (ascii ''plain text'')
      else no_file)"

definition world0 :: world where
  "world0 =
     \<lparr>root_stat = None, root = tree0, files = files0, create_zip = None,
      created_stat = Inr \<lparr>fi_name = ''images.zip'', fi_size = 0, fi_modtime = 1700000100\<rparr>,
      info_header = (\<lambda>fi. None), create_header = (\<lambda>h. None), zip_stat = Inr 412,
      post_message = None, post_document = None\<rparr>"

text \<open>Two sibling directories with one image each.\<close>

definition tree1 :: dir where
  "tree1 =
     Listing
       [(''a'', Dir (Listing [(''1.png'', File (plain_file ''1.png'' png_bytes))])),
        (''b'', Dir (Listing [(''2.jpg'', File (plain_file ''2.jpg'' jpeg_bytes))]))]"

text \<open>
  A directory with an entry that vanished after the listing, an image that cannot be
  opened, a subdirectory that cannot be listed, and an image.
\<close>

definition locked :: srcfile where
  "locked = (plain_file ''locked.jpg'' jpeg_bytes)\<lparr>f_open := Some ''open locked.jpg: permission denied''\<rparr>"

definition tree2 :: dir where
  "tree2 =
     Listing
       [(''gone'', NoInfo ''lstat gone: no such file or directory''),
        (''locked.jpg'', File locked),
        (''private'', Dir (Unlistable ''open private: permission denied'')),
        (''z.jpg'', File (plain_file ''z.jpg'' jpeg_bytes))]"

text \<open>The flags \<^verbatim>\<open>-silence\<close>, and \<^verbatim>\<open>-t\<close>, \<^verbatim>\<open>-c\<close>, \<^verbatim>\<open>-m\<close>.\<close>

definition cfg_silent :: config where
  "cfg_silent = cfg0\<lparr>silence := True\<rparr>"

definition cfg_chat :: config where
  "cfg_chat = cfg0\<lparr>telegramToken := ''123:abc'', telegramChatID := ''42'', message := ''pics''\<rparr>"


definition world_big :: world where
  "world_big = world0\<lparr>zip_stat := Inr 20971521\<rparr>"



section \<open>Lemmas on the walk\<close>

lemma isImageFile_walker: "list_all walker_op (snd (isImageFile D c p f))"
  by (simp add: isImageFile_def Let_def split: prod.split)

lemma search_walker:
  "list_all walker_op (search D c loc d)"
  "list_all walker_op (search_entries D c loc es)"
  "list_all walker_op (search_entry D c loc name n)"
proof (induction D c loc d and D c loc es and D c loc name n
       rule: search_search_entries_search_entry.induct)
  case (7 D c loc name f)
  then show ?case
    using isImageFile_walker [of D c "Join D loc name" f]
    by (auto simp: Let_def split: prod.split)
qed simp_all

lemma step1_walker:
  assumes "list_all walker_op (snd g)"
  shows "list_all walker_op (fst (snd (step1 sh g))) \<and>
         list_all (\<lambda>g. list_all walker_op (snd g)) (snd (snd (step1 sh g)))"
  using assms by (induction sh g rule: step1.induct) simp_all

lemma step_walker: "walker_state s \<Longrightarrow> walker_state (step n s)"
proof (cases "pool s = []")
  case True
  assume "walker_state s"
  with True show ?thesis by (simp add: step_def)
next
  case False
  assume inv: "walker_state s"
  let ?i = "n mod length (pool s)"
  from False have i: "?i < length (pool s)" by simp
  with inv have g: "list_all walker_op (snd (pool s ! ?i))"
    by (simp add: walker_state_def list_all_length)
  from inv have tk: "list_all (\<lambda>g. list_all walker_op (snd g)) (take ?i (pool s))"
    and dr: "list_all (\<lambda>g. list_all walker_op (snd g)) (drop (Suc ?i) (pool s))"
    by (auto simp: walker_state_def list_all_iff dest: in_set_takeD in_set_dropD)
  from step1_walker [OF g, of "imageFiles s"] tk dr inv False show ?thesis
    by (auto simp: step_def walker_state_def Let_def split: prod.split)
qed

lemma exec_walker: "walker_state s \<Longrightarrow> walker_state (exec ns s)"
  by (induction ns arbitrary: s) (simp_all add: step_walker)

lemma drain_walker:
  "list_all walker_op ops \<Longrightarrow> list_all walker_op (snd s) \<Longrightarrow>
   list_all walker_op (snd (drain ops s))"
  by (induction ops s rule: drain.induct) simp_all

lemma finish1_walker:
  "list_all walker_op (snd g) \<Longrightarrow> list_all walker_op (snd s) \<Longrightarrow>
   list_all walker_op (snd (finish1 g s))"
  by (induction g s rule: finish1.induct) (simp_all add: drain_walker)

lemma fold_finish1_walker:
  "list_all (\<lambda>g. list_all walker_op (snd g)) gs \<Longrightarrow> list_all walker_op (snd s) \<Longrightarrow>
   list_all walker_op (snd (fold finish1 gs s))"
  by (induction gs arbitrary: s) (simp_all add: finish1_walker)

lemma walk_walker: "list_all walker_op (snd (walk D c d sched))"
proof -
  let ?s = "\<lparr>imageFiles = [], streams = [], pool = [(None, search D c (location c) d)]\<rparr>"
  have "walker_state ?s"
    by (simp add: walker_state_def search_walker)
  then have "walker_state (exec sched ?s)"
    by (rule exec_walker)
  then show ?thesis
    by (simp add: walk_def finish_def walker_state_def fold_finish1_walker)
qed

lemma isImageFile_is_image:
  assumes "silence c \<longrightarrow> \<not> IsImage D (replicate 261 0)"
  shows "fst (isImageFile D c p f) = is_image D f"
  using assms
  by (auto simp: isImageFile_def is_image_def file_Read_def Let_def split: option.splits)

lemma isImageFile_appended: "concat (map appended (snd (isImageFile D c p f))) = []"
  by (simp add: isImageFile_def Let_def split: prod.split)

lemma search_appended:
  "(silence c \<longrightarrow> \<not> IsImage D (replicate 261 0)) \<Longrightarrow>
     concat (map appended (search D c loc d)) = image_paths D loc d"
  "(silence c \<longrightarrow> \<not> IsImage D (replicate 261 0)) \<Longrightarrow>
     concat (map appended (search_entries D c loc es)) = image_paths_entries D loc es"
  "(silence c \<longrightarrow> \<not> IsImage D (replicate 261 0)) \<Longrightarrow>
     concat (map appended (search_entry D c loc name n)) = image_paths_entry D loc name n"
proof (induction D c loc d and D c loc es and D c loc name n
       rule: search_search_entries_search_entry.induct)
  case (7 D c loc name f)
  from isImageFile_is_image [OF 7, of "Join D loc name" f]
       isImageFile_appended [of D c "Join D loc name" f]
  show ?case
    by (cases "isImageFile D c (Join D loc name) f") (simp add: Let_def)
qed simp_all

lemma drain_appended:
  "fst (drain ops s) = fst s @ concat (map appended ops)"
  by (induction ops s rule: drain.induct) simp_all

lemma walk_uninterrupted:
  assumes "silence c \<longrightarrow> \<not> IsImage D (replicate 261 0)"
  shows "fst (walk D c d []) = image_paths D (location c) d"
  using search_appended(1) [OF assms]
  by (simp add: walk_def finish_def drain_appended)

lemma step1_sound:
  assumes "set sh \<subseteq> S" and "sound_goroutine S g"
  shows "set (fst (step1 sh g)) \<subseteq> S \<and> list_all (sound_goroutine S) (snd (snd (step1 sh g)))"
  using assms by (induction sh g rule: step1.induct) (auto simp: sound_goroutine_def)

lemma step_sound: "sound_state S s \<Longrightarrow> sound_state S (step n s)"
proof (cases "pool s = []")
  case True
  assume "sound_state S s"
  with True show ?thesis by (simp add: step_def)
next
  case False
  assume inv: "sound_state S s"
  let ?i = "n mod length (pool s)"
  from False have i: "?i < length (pool s)" by simp
  with inv have g: "sound_goroutine S (pool s ! ?i)"
    by (simp add: sound_state_def list_all_length)
  from inv have sh: "set (imageFiles s) \<subseteq> S" by (simp add: sound_state_def)
  from inv have tk: "list_all (sound_goroutine S) (take ?i (pool s))"
    and dr: "list_all (sound_goroutine S) (drop (Suc ?i) (pool s))"
    by (auto simp: sound_state_def list_all_iff dest: in_set_takeD in_set_dropD)
  from step1_sound [OF sh g] tk dr False show ?thesis
    by (auto simp: step_def sound_state_def Let_def split: prod.split)
qed

lemma exec_sound: "sound_state S s \<Longrightarrow> sound_state S (exec ns s)"
  by (induction ns arbitrary: s) (simp_all add: step_sound)

lemma finish1_sound:
  assumes "set (fst s) \<subseteq> S" and "sound_goroutine S g"
  shows "set (fst (finish1 g s)) \<subseteq> S"
  using assms
  by (induction g s rule: finish1.induct) (auto simp: drain_appended sound_goroutine_def)

lemma fold_finish1_sound:
  assumes "set (fst s) \<subseteq> S" and "list_all (sound_goroutine S) gs"
  shows "set (fst (fold finish1 gs s)) \<subseteq> S"
  using assms by (induction gs arbitrary: s) (simp_all add: finish1_sound)

lemma walk_sound:
  assumes "silence c \<longrightarrow> \<not> IsImage D (replicate 261 0)"
  shows "set (fst (walk D c d sched)) \<subseteq> set (image_paths D (location c) d)"
proof -
  let ?S = "set (image_paths D (location c) d)"
  let ?s = "\<lparr>imageFiles = [], streams = [], pool = [(None, search D c (location c) d)]\<rparr>"
  have "sound_state ?S ?s"
    using search_appended(1) [OF assms, of "location c" d]
    by (simp add: sound_state_def sound_goroutine_def)
  then have "sound_state ?S (exec sched ?s)" by (rule exec_sound)
  then show ?thesis
    by (simp add: walk_def finish_def sound_state_def fold_finish1_sound)
qed

lemma walker_no_delivery: "list_all walker_op xs \<Longrightarrow> list_all (\<lambda>x. \<not> delivery_op x) xs"
proof (induction xs)
  case (Cons x xs)
  then show ?case by (cases x) simp_all
qed simp

lemma pending_append: "pending (xs @ ys) = pending xs @ pending ys"
  by (simp add: pending_def)

lemma step1_emitted:
  "mset (fst (snd (step1 sh g))) + mset (pending (snd (snd (step1 sh g))))
     = mset (concat (map emitted (snd g)))"
  by (induction sh g rule: step1.induct) (simp_all add: pending_def)

lemma step_emitted:
  "mset (streams (step n s)) + mset (pending (pool (step n s)))
     = mset (streams s) + mset (pending (pool s))"
proof (cases "pool s = []")
  case True
  then show ?thesis by (simp add: step_def)
next
  case False
  let ?i = "n mod length (pool s)"
  from False have i: "?i < length (pool s)" by simp
  then have p: "pool s = take ?i (pool s) @ [pool s ! ?i] @ drop (Suc ?i) (pool s)"
    by (simp add: id_take_nth_drop [symmetric])
  have "mset (pending (pool s)) =
          mset (pending (take ?i (pool s))) + mset (concat (map emitted (snd (pool s ! ?i))))
          + mset (pending (drop (Suc ?i) (pool s)))"
    by (subst p) (simp add: pending_append, simp add: pending_def)
  moreover obtain sh log gs where st: "step1 (imageFiles s) (pool s ! ?i) = (sh, log, gs)"
    by (cases "step1 (imageFiles s) (pool s ! ?i)") auto
  moreover from step1_emitted [of "imageFiles s" "pool s ! ?i"] st
  have "mset log + mset (pending gs) = mset (concat (map emitted (snd (pool s ! ?i))))"
    by simp
  ultimately show ?thesis using False
    by (simp add: step_def Let_def pending_append)
qed

lemma exec_emitted:
  "mset (streams (exec ns s)) + mset (pending (pool (exec ns s)))
     = mset (streams s) + mset (pending (pool s))"
  by (induction ns arbitrary: s) (simp_all add: step_emitted)

lemma drain_emitted:
  "mset (snd (drain ops s)) = mset (snd s) + mset (concat (map emitted ops))"
  by (induction ops s rule: drain.induct) simp_all

lemma finish1_emitted:
  "mset (snd (finish1 g s)) = mset (snd s) + mset (concat (map emitted (snd g)))"
  by (induction g s rule: finish1.induct) (simp_all add: drain_emitted)

lemma fold_finish1_emitted:
  "mset (snd (fold finish1 gs s)) = mset (snd s) + mset (pending gs)"
  by (induction gs arbitrary: s) (simp_all add: finish1_emitted pending_def)

lemma walk_streams:
  "mset (snd (walk D c d sched)) = mset (concat (map emitted (search D c (location c) d)))"
proof -
  let ?s = "\<lparr>imageFiles = [], streams = [], pool = [(None, search D c (location c) d)]\<rparr>"
  have "mset (snd (walk D c d sched))
          = mset (streams (exec sched ?s)) + mset (pending (pool (exec sched ?s)))"
    by (simp add: walk_def finish_def fold_finish1_emitted)
  also have "\<dots> = mset (streams ?s) + mset (pending (pool ?s))"
    by (rule exec_emitted)
  finally show ?thesis by (simp add: pending_def)
qed

section \<open>Lemmas on the archive builder\<close>

lemma addToZip_log: "snd (snd (addToZip W fs p zs)) = [OpenFile p]"
  by (simp add: addToZip_def Let_def split: option.splits sum.splits prod.splits)


lemma addToZip_ok:
  assumes "addToZip W fs p zs = (None, zs', log)"
  shows "\<exists>z. zs' = zs @ [z] \<and> entry_for fs p z \<and> log = [OpenFile p]"
  using assms
  by (auto simp: addToZip_def Let_def entry_for_def FileInfoHeader_def
           split: option.splits sum.splits prod.splits)


lemma zip_loop_ok:
  assumes "zip_loop W fs imgs zs0 = (None, zs, zlog)"
  shows "\<exists>new. zs = zs0 @ new \<and> list_all2 (entry_for fs) imgs new \<and> zlog = map OpenFile imgs"
  using assms
proof (induction imgs arbitrary: zs0 zs zlog)
  case Nil
  then show ?case by simp
next
  case (Cons p imgs)
  obtain r zs1 log1 where a: "addToZip W fs p zs0 = (r, zs1, log1)"
    by (cases "addToZip W fs p zs0") auto
  with Cons.prems have r: "r = None" by (cases r) auto
  obtain r2 zs2 log2 where l: "zip_loop W fs imgs zs1 = (r2, zs2, log2)"
    by (cases "zip_loop W fs imgs zs1") auto
  from Cons.prems a r l have eq: "r2 = None" "zs2 = zs" "zlog = log1 @ log2" by auto
  from addToZip_ok [OF a [unfolded r]] obtain z where
    z: "zs1 = zs0 @ [z]" "entry_for fs p z" "log1 = [OpenFile p]" by blast
  from Cons.IH [OF l [unfolded eq(1)]] obtain new where
    n: "zs2 = zs1 @ new" "list_all2 (entry_for fs) imgs new" "log2 = map OpenFile imgs" by blast
  from z n eq show ?case by (intro exI [of _ "z # new"]) simp
qed


lemma zipImages_ok:
  assumes "zipImages W imgs out = (None, zs, zlog)"
  shows "list_all2 (entry_for ((files W)(out := truncated W))) imgs zs \<and>
         zlog = CreateFile out # map OpenFile imgs"
proof -
  from assms have c: "create_zip W = None"
    by (auto simp: zipImages_def split: option.splits)
  obtain r zs1 log1 where l: "zip_loop W ((files W)(out := truncated W)) imgs [] = (r, zs1, log1)"
    by (cases "zip_loop W ((files W)(out := truncated W)) imgs []") auto
  with assms c have "r = None" "zs1 = zs" "zlog = CreateFile out # log1"
    by (auto simp: zipImages_def)
  with zip_loop_ok [of W _ imgs "[]" zs log1] l show ?thesis by auto
qed

lemma zipImages_log: "list_all (\<lambda>x. \<not> delivery_op x) (snd (snd (zipImages W imgs out)))"
proof -
  have h: "list_all (\<lambda>x. \<not> delivery_op x) (snd (snd (zip_loop W fs imgs zs)))" for fs zs
  proof (induction imgs arbitrary: zs)
    case (Cons p imgs)
    obtain r zs1 log1 where a: "addToZip W fs p zs = (r, zs1, log1)"
      by (cases "addToZip W fs p zs") auto
    with addToZip_log [of W fs p zs] have "log1 = [OpenFile p]" by simp
    with a Cons.IH [of zs1] show ?case
      by (cases r) (auto split: prod.splits)
  qed simp
  from h [of "(files W)(out := truncated W)" "[]"] show ?thesis
    by (auto simp: zipImages_def split: option.splits prod.splits)
qed


lemma search_entries_append:
  "search_entries D c loc (xs @ ys) = search_entries D c loc xs @ search_entries D c loc ys"
  by (induction xs) auto

section \<open>Properties of the specification\<close>

text \<open>
  C1. The result of the walk is not independent of the scheduling of the goroutines.
  On the tree \<open>tree0\<close> the main goroutine starts a goroutine for \<^verbatim>\<open>sub\<close> and then
  appends \<^verbatim>\<open>z.jpg\<close>, while the new goroutine appends \<^verbatim>\<open>sub/c.png\<close>. When each goroutine
  runs without interruption, both images are in \<^verbatim>\<open>imageFiles\<close>. When both read the slice
  before either writes it back, the walk ends with \<^verbatim>\<open>sub/c.png\<close> only: the image
  \<^verbatim>\<open>z.jpg\<close> is missing from the result.
\<close>

theorem walk_lost_image:
  "search go_deps cfg0 ''.'' tree0 =
     [ReadDir ''.'',
      Go [ReadDir ''sub'', Append ''sub/c.png'', Stdout ''sub/c.png\<newline>''],
      Append ''z.jpg'', Stdout ''z.jpg\<newline>''] \<and>
   fst (walk go_deps cfg0 tree0 []) = [''sub/c.png'', ''z.jpg''] \<and>
   fst (walk go_deps cfg0 tree0 [0, 0, 1, 0, 1, 0, 1]) = [''sub/c.png'']"
  by code_simp




text \<open>
  C3, as stated, fails: a file of the three bytes 00 00 01 is read into the 261-byte
  buffer, the buffer starts 00 00 01 00 and matches the ICO signature, although the
  three bytes of the file match no signature.
\<close>

theorem isImageFile_padding_counterexample:
  "fst (isImageFile go_deps cfg0 ''x.bin'' (plain_file ''x.bin'' [0, 0, 1])) \<and>
   \<not> IsImage go_deps (take 261 (f_data (plain_file ''x.bin'' [0, 0, 1])))"
  by code_simp

text \<open>
  C3, amended. On a file that opens and whose read does not fail, \<^verbatim>\<open>isImageFile\<close>
  returns what \<^verbatim>\<open>filetype.IsImage\<close> says of the 261-byte buffer: the leading bytes of
  the file followed by zero bytes when the file is shorter. A zero-byte file gives
  \<^verbatim>\<open>io.EOF\<close>: the result is false when \<^verbatim>\<open>silence\<close> is off, and what
  \<^verbatim>\<open>filetype.IsImage\<close> says of the all-zero buffer when it is on, which is false for the
  signatures of the library. A file for which the result is false is not appended to the
  result.
\<close>

theorem isImageFile_buffer:
  assumes "f_open f = None" and "f_read f = None"
  shows "(f_data f \<noteq> [] \<longrightarrow>
            fst (isImageFile D c path f) = IsImage D (read_buf (f_data f))) \<and>
         (f_data f = [] \<longrightarrow>
            fst (isImageFile D c path f) = (silence c \<and> IsImage D (replicate 261 0))) \<and>
         \<not> IsImage go_deps (replicate 261 0) \<and>
         (\<not> fst (isImageFile D c (Join D loc name) f) \<longrightarrow>
            list_all (\<lambda>x. \<forall>q. x \<noteq> Append q) (search_entry D c loc name (File f)))"
proof (intro conjI)
  show "\<not> IsImage go_deps (replicate 261 0)" by code_simp
qed (use assms in \<open>auto simp: isImageFile_def file_Read_def Let_def split: prod.splits\<close>)

theorem isImageFile_buffer_witness:
  "f_open (plain_file ''c.png'' png_bytes) = None \<and> f_read (plain_file ''c.png'' png_bytes) = None \<and>
   fst (isImageFile go_deps cfg0 ''sub/c.png'' (plain_file ''c.png'' png_bytes)) \<and>
   \<not> fst (isImageFile go_deps cfg_silent ''empty'' (plain_file ''empty'' [])) \<and>
   \<not> fst (isImageFile go_deps cfg0 ''empty'' (plain_file ''empty'' [])) \<and>
   search_entry go_deps cfg0 ''.'' ''empty'' (File (plain_file ''empty'' [])) =
     [Stderr ''file read failed empty, EOF\<newline>'']"
proof -
  have o: "f_open (plain_file n bs) = None" "f_read (plain_file n bs) = None" for n bs
    by (simp_all add: plain_file_def)
  have d: "f_data (plain_file ''c.png'' png_bytes) \<noteq> []" "f_data (plain_file ''empty'' []) = []"
    by (simp_all add: plain_file_def png_bytes_def)
  have i: "IsImage go_deps (read_buf (f_data (plain_file ''c.png'' png_bytes)))"
    by code_simp
  have s: "silence cfg_silent" "\<not> silence cfg0" by (simp_all add: cfg_silent_def cfg0_def)
  have e: "search_entry go_deps cfg0 ''.'' ''empty'' (File (plain_file ''empty'' [])) =
     [Stderr ''file read failed empty, EOF\<newline>'']" by code_simp
  from isImageFile_buffer [OF o, of "''c.png''" png_bytes go_deps cfg0 "''sub/c.png''"]
       isImageFile_buffer [OF o, of "''empty''" "[]" go_deps cfg_silent "''empty''"]
       isImageFile_buffer [OF o, of "''empty''" "[]" go_deps cfg0 "''empty''"]
       o d i s e
  show ?thesis by simp
qed

text \<open>
  C4. The append to the shared slice is not atomic and updates are lost. On \<open>tree1\<close>
  the goroutines of the directories \<^verbatim>\<open>a\<close> and \<^verbatim>\<open>b\<close> each find one image. Under the
  schedule below both read the empty slice before either writes: both paths are printed,
  so both appends were executed, and \<^verbatim>\<open>imageFiles\<close> ends with one path.
\<close>

theorem walk_lost_update:
  "walk go_deps cfg0 tree1 [0, 0, 0, 0, 1, 0, 1, 0, 1, 0] =
     ([''b/2.jpg''],
      [ReadDir ''.'', ReadDir ''a'', ReadDir ''b'', Stdout ''b/2.jpg\<newline>'',
       Stdout ''a/1.png\<newline>''])"
  by code_simp

text \<open>
  C5, as stated, fails: with \<^verbatim>\<open>-silence\<close> the file \<^verbatim>\<open>locked.jpg\<close>, which cannot be
  opened, is skipped and no line about it reaches the error stream.
\<close>

theorem walk_silent_counterexample:
  "walk go_deps cfg_silent tree2 [] =
     ([''z.jpg''],
      [ReadDir ''.'', Stderr ''lstat gone: no such file or directory\<newline>'',
       ReadDir ''private'', Stderr ''open private: permission denied\<newline>'',
       Stdout ''z.jpg\<newline>''])"
  by code_simp

text \<open>
  C5, amended. The entries before and after an entry are processed whatever that entry
  does. A failing \<^verbatim>\<open>entry.Info()\<close> and a subdirectory whose listing fails are reported
  on the error stream, in the goroutine of that subdirectory for the latter, and nothing
  else happens for them. A file whose open or read fails is reported on the error stream
  when \<^verbatim>\<open>silence\<close> is off, and nothing else happens for it. When \<^verbatim>\<open>silence\<close> is on, no
  error is reported for such a file, and it is not added to the result provided the
  all-zero buffer is no image for \<^verbatim>\<open>filetype.IsImage\<close>. Under every schedule, the lines
  that reach the streams during the walk are those that the goroutines write in their
  own order, each once.
\<close>

theorem search_entry_failure:
  "search_entries D c loc (xs @ (name, n) # ys) =
     search_entries D c loc xs @ search_entry D c loc name n @ search_entries D c loc ys \<and>
   search_entry D c loc name (NoInfo e) = [Stderr (e @ nl)] \<and>
   search_entry D c loc name (Dir (Unlistable e)) =
     [Go [ReadDir (Join D loc name), Stderr (e @ nl)]] \<and>
   (\<not> silence c \<and> f_open f = Some e \<longrightarrow>
      search_entry D c loc name (File f) =
        [Stderr (''file open failed '' @ Join D loc name @ '', '' @ e @ nl)]) \<and>
   (\<not> silence c \<and> f_open f = None \<and> fst (file_Read f) = Some e \<longrightarrow>
      search_entry D c loc name (File f) =
        [Stderr (''file read failed '' @ Join D loc name @ '', '' @ e @ nl)]) \<and>
   (silence c \<and> fst (file_Read f) \<noteq> None \<and> \<not> IsImage D (replicate 261 0) \<longrightarrow>
      search_entry D c loc name (File f) =
        (if debug c
         then [Stderr (''Not Image file: '' @ [CHR 0x27] @ Join D loc name @ [CHR 0x27] @ nl)]
         else [])) \<and>
   mset (snd (walk D c d sched)) = mset (concat (map emitted (search D c (location c) d)))"
proof (intro conjI impI)
  show "mset (snd (walk D c d sched)) = mset (concat (map emitted (search D c (location c) d)))"
    by (rule walk_streams)
next
  show "search_entries D c loc (xs @ (name, n) # ys) =
     search_entries D c loc xs @ search_entry D c loc name n @ search_entries D c loc ys"
    by (simp add: search_entries_append)
next
  assume "silence c \<and> fst (file_Read f) \<noteq> None \<and> \<not> IsImage D (replicate 261 0)"
  moreover have "snd (file_Read f) = replicate 261 0" if "fst (file_Read f) \<noteq> None"
    using that by (auto simp: file_Read_def split: option.splits if_splits)
  ultimately show "search_entry D c loc name (File f) =
        (if debug c
         then [Stderr (''Not Image file: '' @ [CHR 0x27] @ Join D loc name @ [CHR 0x27] @ nl)]
         else [])"
    by (auto simp: isImageFile_def Let_def split: prod.splits)
qed (auto simp: isImageFile_def Let_def split: prod.splits)

theorem search_entry_failure_witness:
  "search_entry go_deps cfg0 ''.'' ''locked.jpg'' (File locked) =
     [Stderr (''file open failed locked.jpg, open locked.jpg: permission denied'' @ nl)] \<and>
   search_entry go_deps cfg0 ''.'' ''empty'' (File (plain_file ''empty'' [])) =
     [Stderr (''file read failed empty, EOF'' @ nl)] \<and>
   search_entry go_deps cfg_silent ''.'' ''locked.jpg'' (File locked) = []"
proof -
  have s: "silence cfg_silent" "\<not> silence cfg0" "\<not> debug cfg_silent"
    by (simp_all add: cfg_silent_def cfg0_def)
  have o: "f_open locked = Some ''open locked.jpg: permission denied''"
    "f_open (plain_file ''empty'' []) = None"
    by (simp_all add: locked_def plain_file_def)
  have r: "fst (file_Read locked) \<noteq> None" "fst (file_Read (plain_file ''empty'' [])) = Some ''EOF''"
    by (simp_all add: file_Read_def locked_def plain_file_def)
  have z: "\<not> IsImage go_deps (replicate 261 0)" by code_simp
  have j: "Join go_deps ''.'' n = n" for n by (simp add: go_deps_def filepath_Join_def)
  from search_entry_failure [of go_deps cfg0 "''.''" "[]" "''locked.jpg''" "File locked" "[]"
         "''open locked.jpg: permission denied''" locked]
       search_entry_failure [of go_deps cfg0 "''.''" "[]" "''empty''" "File locked" "[]"
         "''EOF''" "plain_file ''empty'' []"]
       search_entry_failure [of go_deps cfg_silent "''.''" "[]" "''locked.jpg''" "File locked" "[]"
         "''EOF''" "locked"]
       s o r z j
  show ?thesis by simp
qed



text \<open>
  C7. When the walk found images, the archive was built and \<^verbatim>\<open>os.Stat\<close> gives it a
  size above 20 MiB (20971520 bytes), \<^verbatim>\<open>run\<close> writes the size-limit message to the
  error stream and returns 1; neither \<^verbatim>\<open>sendMessageToTelegram\<close> nor
  \<^verbatim>\<open>sendFileToTelegram\<close> has been called at any point of the run.
\<close>

theorem run_size_limit:
  assumes "root_stat W = None"
    and "walk D c (root W) sched = (imgs, log)" and "imgs \<noteq> []"
    and "zipImages W imgs (outputZip c) = (None, zs, zlog)"
    and "zip_stat W = Inr sz" and "sz > 20 * 1024 * 1024"
  shows "run D c W sched =
           (1, log @ zlog @
               [Stdout (''Zipped '' @ dec (length imgs) @ '' images into '' @ outputZip c @ nl),
                Stderr (''The zip file is too large to send via Telegram ('' @ fmt_d sz
                        @ '' bytes).'' @ nl)]) \<and>
         list_all (\<lambda>x. \<not> delivery_op x) (snd (run D c W sched))"
proof -
  have r: "run D c W sched =
           (1, log @ zlog @
               [Stdout (''Zipped '' @ dec (length imgs) @ '' images into '' @ outputZip c @ nl),
                Stderr (''The zip file is too large to send via Telegram ('' @ fmt_d sz
                        @ '' bytes).'' @ nl)])"
    using assms by (simp add: run_def Let_def del: dec.simps)
  from walk_walker [of D c "root W" sched] assms(2)
  have "list_all (\<lambda>x. \<not> delivery_op x) log"
    by (simp add: walker_no_delivery)
  moreover from zipImages_log [of W imgs "outputZip c"] assms(4)
  have "list_all (\<lambda>x. \<not> delivery_op x) zlog" by simp
  ultimately show ?thesis using r by simp
qed

theorem run_size_limit_witness:
  "root_stat world_big = None \<and>
   walk go_deps cfg_chat (root world_big) [] =
     ([''sub/c.png'', ''z.jpg''],
      [ReadDir ''.'', ReadDir ''sub'', Stdout ''sub/c.png\<newline>'', Stdout ''z.jpg\<newline>'']) \<and>
   fst (zipImages world_big [''sub/c.png'', ''z.jpg''] (outputZip cfg_chat)) = None \<and>
   zip_stat world_big = Inr 20971521 \<and>
   run go_deps cfg_chat world_big [] =
     (1, [ReadDir ''.'', ReadDir ''sub'', Stdout ''sub/c.png\<newline>'', Stdout ''z.jpg\<newline>'',
          CreateFile ''images.zip'', OpenFile ''sub/c.png'', OpenFile ''z.jpg'',
          Stdout ''Zipped 2 images into images.zip\<newline>'',
          Stderr ''The zip file is too large to send via Telegram (20971521 bytes).\<newline>'']) \<and>
   list_all (\<lambda>x. \<not> delivery_op x) (snd (run go_deps cfg_chat world_big []))"
proof -
  have h1: "root_stat world_big = None" by (simp add: world_big_def world0_def)
  have h2: "walk go_deps cfg_chat (root world_big) [] =
     ([''sub/c.png'', ''z.jpg''],
      [ReadDir ''.'', ReadDir ''sub'', Stdout ''sub/c.png\<newline>'', Stdout ''z.jpg\<newline>''])"
    by code_simp
  have h3: "[''sub/c.png'', ''z.jpg''] \<noteq> ([] :: string list)" by simp
  have z1: "fst (zipImages world_big [''sub/c.png'', ''z.jpg''] (outputZip cfg_chat)) = None"
    by code_simp
  have z2: "snd (snd (zipImages world_big [''sub/c.png'', ''z.jpg''] (outputZip cfg_chat))) =
     [CreateFile ''images.zip'', OpenFile ''sub/c.png'', OpenFile ''z.jpg'']"
    by code_simp
  obtain zs where h4: "zipImages world_big [''sub/c.png'', ''z.jpg''] (outputZip cfg_chat) =
     (None, zs, [CreateFile ''images.zip'', OpenFile ''sub/c.png'', OpenFile ''z.jpg''])"
    using z1 z2
    by (cases "zipImages world_big [''sub/c.png'', ''z.jpg''] (outputZip cfg_chat)") auto
  have h5: "zip_stat world_big = Inr 20971521" by (simp add: world_big_def)
  have h6: "(20971521::int) > 20 * 1024 * 1024" by simp
  have o: "outputZip cfg_chat = ''images.zip''" by (simp add: cfg_chat_def cfg0_def)
  from run_size_limit [OF h1 h2 h3 h4 h5 h6] h1 h2 h4 h5 o
  show ?thesis by (simp add: nl_def fmt_d_def digit_def)
qed



text \<open>
  C9. When \<^verbatim>\<open>zipImages\<close> returns no error, the archive holds one entry per path of the
  list, in the order of the list and nothing else; each entry is named by the path
  string itself, is marked for Deflate, and carries the modification time and the size
  that \<^verbatim>\<open>Stat\<close> gave for the file; the files were opened in the order of the list.
\<close>

theorem zipImages_entries:
  assumes "zipImages W imgs out = (None, zs, zlog)"
  shows "map (\<lambda>z. h_name (header z)) zs = imgs \<and>
         zlog = CreateFile out # map OpenFile imgs \<and>
         list_all2
           (\<lambda>p z. h_name (header z) = p \<and> h_method (header z) = Deflate \<and>
              (\<exists>info. f_stat (((files W)(out := truncated W)) p) = Inr info \<and>
                 h_modified (header z) = fi_modtime info \<and> h_size (header z) = fi_size info))
           imgs zs"
proof -
  from zipImages_ok [OF assms]
  have a: "list_all2 (entry_for ((files W)(out := truncated W))) imgs zs"
    and l: "zlog = CreateFile out # map OpenFile imgs" by simp_all
  from a have "list_all2 (\<lambda>p z. h_name (header z) = p) imgs zs"
    by (rule list_all2_mono) (auto simp: entry_for_def)
  then have n: "map (\<lambda>z. h_name (header z)) zs = imgs"
    by (induction rule: list_all2_induct) simp_all
  from a have "list_all2
           (\<lambda>p z. h_name (header z) = p \<and> h_method (header z) = Deflate \<and>
              (\<exists>info. f_stat (((files W)(out := truncated W)) p) = Inr info \<and>
                 h_modified (header z) = fi_modtime info \<and> h_size (header z) = fi_size info))
           imgs zs"
    by (rule list_all2_mono) (auto simp: entry_for_def)
  with n l show ?thesis by simp
qed

theorem zipImages_entries_witness:
  "fst (zipImages world0 [''sub/c.png'', ''z.jpg''] ''images.zip'') = None \<and>
   map (\<lambda>z. h_name (header z)) (fst (snd (zipImages world0 [''sub/c.png'', ''z.jpg''] ''images.zip'')))
     = [''sub/c.png'', ''z.jpg''] \<and>
   snd (snd (zipImages world0 [''sub/c.png'', ''z.jpg''] ''images.zip''))
     = [CreateFile ''images.zip'', OpenFile ''sub/c.png'', OpenFile ''z.jpg'']"
proof -
  have z1: "fst (zipImages world0 [''sub/c.png'', ''z.jpg''] ''images.zip'') = None"
    by code_simp
  then obtain zs zlog where
    h: "zipImages world0 [''sub/c.png'', ''z.jpg''] ''images.zip'' = (None, zs, zlog)"
    by (cases "zipImages world0 [''sub/c.png'', ''z.jpg''] ''images.zip''") auto
  from zipImages_entries [OF h] h z1 show ?thesis by simp
qed

text \<open>
  C10. When the walk found images, the archive was built and its size is within the
  limit, \<^verbatim>\<open>run\<close> calls \<^verbatim>\<open>sendMessageToTelegram\<close> whatever the flags are; with an
  empty chat identifier the call fails, the last line of the run is that error and the
  exit status is 1. Whenever the walk found images, an exit status 0 implies a chat
  identifier that is not empty.
\<close>

theorem run_notify:
  assumes "root_stat W = None"
    and "walk D c (root W) sched = (imgs, log)" and "imgs \<noteq> []"
  shows "(zipImages W imgs (outputZip c) = (None, zs, zlog) \<and> zip_stat W = Inr sz \<and>
          sz \<le> 20 * 1024 * 1024 \<longrightarrow>
            SendMessage (message c) (telegramToken c) (telegramChatID c)
              \<in> set (snd (run D c W sched)) \<and>
            (telegramChatID c = [] \<longrightarrow>
               fst (run D c W sched) = 1 \<and>
               last (snd (run D c W sched)) =
                 Stderr (''Error sending test message to Telegram: chat_id is empty'' @ nl))) \<and>
         (fst (run D c W sched) = 0 \<longrightarrow> telegramChatID c \<noteq> [])"
  using assms
  by (auto simp: run_def Let_def sendMessageToTelegram_def sendFileToTelegram_def
           simp del: dec.simps split: option.splits sum.splits prod.splits if_splits)

theorem run_notify_witness:
  "root_stat world0 = None \<and>
   walk go_deps cfg0 (root world0) [] =
     ([''sub/c.png'', ''z.jpg''],
      [ReadDir ''.'', ReadDir ''sub'', Stdout ''sub/c.png\<newline>'', Stdout ''z.jpg\<newline>'']) \<and>
   fst (zipImages world0 [''sub/c.png'', ''z.jpg''] (outputZip cfg0)) = None \<and>
   zip_stat world0 = Inr 412 \<and> telegramChatID cfg0 = [] \<and>
   SendMessage [] [] [] \<in> set (snd (run go_deps cfg0 world0 [])) \<and>
   fst (run go_deps cfg0 world0 []) = 1 \<and>
   last (snd (run go_deps cfg0 world0 [])) =
     Stderr ''Error sending test message to Telegram: chat_id is empty\<newline>'' \<and>
   fst (run go_deps cfg_chat world0 []) = 0 \<and> telegramChatID cfg_chat \<noteq> []"
proof -
  have h1: "root_stat world0 = None" by (simp add: world0_def)
  have h2: "walk go_deps c (root world0) [] =
     ([''sub/c.png'', ''z.jpg''],
      [ReadDir ''.'', ReadDir ''sub'', Stdout ''sub/c.png\<newline>'', Stdout ''z.jpg\<newline>''])"
    if "c = cfg0 \<or> c = cfg_chat" for c
    using that by (elim disjE; hypsubst) code_simp+
  have h3: "[''sub/c.png'', ''z.jpg''] \<noteq> ([] :: string list)" by simp
  have z1: "fst (zipImages world0 [''sub/c.png'', ''z.jpg''] (outputZip cfg0)) = None"
    by code_simp
  obtain zs zlog where h4: "zipImages world0 [''sub/c.png'', ''z.jpg''] (outputZip cfg0) =
     (None, zs, zlog)"
    using z1 by (cases "zipImages world0 [''sub/c.png'', ''z.jpg''] (outputZip cfg0)") auto
  have h5: "zip_stat world0 = Inr 412" by (simp add: world0_def)
  have c: "message cfg0 = []" "telegramToken cfg0 = []" "telegramChatID cfg0 = []"
    by (simp_all add: cfg0_def)
  have r: "fst (run go_deps cfg_chat world0 []) = 0" by code_simp
  from run_notify [OF h1 h2 h3, of cfg0 zs zlog 412] run_notify [OF h1 h2 h3, of cfg_chat]
       h1 h2 [of cfg0] h4 h5 c r z1
  show ?thesis by (simp add: nl_def)
qed

end
